theory Spec2Isabelle
  imports Main
begin

section \<open>The module relation\<close>

text \<open>
  One row of the table \<^verbatim>\<open>modules\<close> (\<^verbatim>\<open>modulesTable\<close> in the schema file).
  Column \<^verbatim>\<open>id\<close> is written \<open>id_col\<close> since \<open>id\<close> is the identity function of HOL.
  The column \<^verbatim>\<open>description\<close> is the only nullable one. Timestamps are instants
  in milliseconds since the epoch.
\<close>

record module =
  id_col :: string
  user_id :: string
  name :: string
  description :: "string option"
  code :: string
  icon :: string
  color :: string
  archived :: bool
  credits :: int
  createdAt :: int
  modifiedAt :: int
  lastVisited :: int

text \<open>The table is the list of its rows, in the order the store keeps them.\<close>

type_synonym table = "module list"

text \<open>
  What a procedure can throw. \<open>TRPCError\<close> carries the tRPC code and the message,
  \<open>DrizzleError\<close> is the query builder's own error class, \<open>OtherError\<close> any other
  thrown value (a driver or network failure).
\<close>

datatype trpc_code = BAD_REQUEST | NOT_FOUND | INTERNAL_SERVER_ERROR

datatype exn =
  TRPCError trpc_code string
| DrizzleError string
| OtherError string

text \<open>\<^verbatim>\<open>findFirst({ where })\<close>: the first row that satisfies the condition, if any.\<close>

definition findFirst :: "(module \<Rightarrow> bool) \<Rightarrow> table \<Rightarrow> module option" where
  "findFirst p db = find p db"

subsection \<open>getById\<close>

text \<open>
  The \<^verbatim>\<open>try\<close> block of \<^verbatim>\<open>getById\<close>, given what the awaited query produced
  (\<open>Inl\<close>: the query threw).
\<close>

definition getById_try :: "exn + module option \<Rightarrow> exn + module" where
  "getById_try q =
     (case q of
        Inl e \<Rightarrow> Inl e
      | Inr None \<Rightarrow> Inl (TRPCError BAD_REQUEST ''Module not found'')
      | Inr (Some userModule) \<Rightarrow> Inr userModule)"

text \<open>
  The \<^verbatim>\<open>catch\<close> block: it receives everything thrown inside the \<^verbatim>\<open>try\<close> block,
  the \<^verbatim>\<open>TRPCError\<close> thrown there for a missing row included.
\<close>

definition getById_catch :: "exn \<Rightarrow> exn" where
  "getById_catch error =
     (case error of
        DrizzleError msg \<Rightarrow> TRPCError BAD_REQUEST msg
      | _ \<Rightarrow> TRPCError INTERNAL_SERVER_ERROR ''An error occurred while fetching the module'')"

definition getById_handler :: "exn + module option \<Rightarrow> exn + module" where
  "getById_handler q =
     (case getById_try q of
        Inl error \<Rightarrow> Inl (getById_catch error)
      | Inr userModule \<Rightarrow> Inr userModule)"

definition getById :: "table \<Rightarrow> string \<Rightarrow> string \<Rightarrow> exn + module" where
  "getById db userId input_id =
     getById_handler
       (Inr (findFirst (\<lambda>t. id_col t = input_id \<and> user_id t = userId) db))"

text \<open>
  The error taxonomy of \<^verbatim>\<open>errors.ts\<close>: an \<^verbatim>\<open>AppError\<close> carries a code, a message and a
  status. \<^verbatim>\<open>NotFoundError\<close> is the kind with code \<^verbatim>\<open>NOT_FOUND\<close> and status 404; its
  message names the identifier when one is given and is not the empty string.
\<close>

record AppError =
  app_code :: string
  app_message :: string
  statusCode :: nat

definition NotFoundError :: "string \<Rightarrow> string option \<Rightarrow> AppError" where
  "NotFoundError resource identifier =
     \<lparr>app_code = ''NOT_FOUND'',
      app_message =
        (case identifier of
           None \<Rightarrow> resource @ '' not found''
         | Some i \<Rightarrow>
             if i = [] then resource @ '' not found''
             else resource @ '' with identifier '' @ [CHR 0x27] @ i @ [CHR 0x27] @ '' not found''),
      statusCode = 404\<rparr>"

text \<open>The status the transport gives each tRPC code that the router uses.\<close>

fun trpc_status :: "trpc_code \<Rightarrow> nat" where
  "trpc_status BAD_REQUEST = 400"
| "trpc_status NOT_FOUND = 404"
| "trpc_status INTERNAL_SERVER_ERROR = 500"

text \<open>A thrown value of the not-found class: a \<^verbatim>\<open>TRPCError\<close> with code \<^verbatim>\<open>NOT_FOUND\<close>.\<close>

fun is_not_found :: "exn \<Rightarrow> bool" where
  "is_not_found (TRPCError c _) = (c = NOT_FOUND)"
| "is_not_found _ = False"

subsection \<open>getUserModules\<close>

text \<open>The value the procedure returns: \<^verbatim>\<open>nextCursor\<close> is \<open>None\<close> when the field is \<^verbatim>\<open>undefined\<close>.\<close>

record page =
  items :: "module list"
  nextCursor :: "string option"

text \<open>
  \<^verbatim>\<open>findMany({ where, orderBy: desc(t.lastVisited), limit })\<close>: the rows that satisfy the
  condition, by \<^verbatim>\<open>lastVisited\<close> descending, cut at \<open>lim\<close> rows. The query names no
  second sort column, so the order among rows with equal \<^verbatim>\<open>lastVisited\<close> is the store's;
  here it is the order of the rows in the table, and the table is arbitrary in every
  statement below.
\<close>

definition findMany :: "(module \<Rightarrow> bool) \<Rightarrow> nat \<Rightarrow> table \<Rightarrow> module list" where
  "findMany wh lim db = take lim (sort_key (\<lambda>t. - lastVisited t) (filter wh db))"

text \<open>
  The lookup of the cursor's row. \<^verbatim>\<open>if (cursor)\<close> is false for an absent cursor and for
  the empty string; the lookup compares the id alone, whoever owns the row.
\<close>

definition resolveCursor :: "table \<Rightarrow> string option \<Rightarrow> int option" where
  "resolveCursor db cursor =
     (case cursor of
        None \<Rightarrow> None
      | Some c \<Rightarrow>
          if c = [] then None
          else (case findFirst (\<lambda>t. id_col t = c) db of
                  None \<Rightarrow> None
                | Some cursorModule \<Rightarrow> Some (lastVisited cursorModule)))"

text \<open>The \<^verbatim>\<open>where\<close> callback of the page query.\<close>

definition modulesWhere :: "string \<Rightarrow> int option \<Rightarrow> module \<Rightarrow> bool" where
  "modulesWhere userId cursorDate t =
     (case cursorDate of
        Some d \<Rightarrow> user_id t = userId \<and> lastVisited t < d
      | None \<Rightarrow> user_id t = userId)"

text \<open>
  The handler, for an input that passed validation (\<open>limit\<close> a whole number from 1 to
  100). \<^verbatim>\<open>modules.slice(0, -1)\<close> is \<open>butlast\<close>; \<^verbatim>\<open>items[items.length - 1]?.id\<close> is
  \<^verbatim>\<open>undefined\<close> on the empty list.
\<close>

definition getUserModules :: "table \<Rightarrow> string \<Rightarrow> nat \<Rightarrow> string option \<Rightarrow> page" where
  "getUserModules db userId limit cursor =
     (let cursorDate = resolveCursor db cursor;
          modules = findMany (modulesWhere userId cursorDate) (limit + 1) db;
          hasMore = (length modules > limit);
          items = (if hasMore then butlast modules else modules)
      in \<lparr>items = items,
          nextCursor =
            (if hasMore
             then (if items = [] then None else Some (id_col (last items)))
             else None)\<rparr>)"

text \<open>All rows the page query matches, in the order of the query, before the cut.\<close>

definition matching :: "table \<Rightarrow> string \<Rightarrow> string option \<Rightarrow> module list" where
  "matching db userId cursor =
     sort_key (\<lambda>t. - lastVisited t) (filter (modulesWhere userId (resolveCursor db cursor)) db)"

subsection \<open>create\<close>

text \<open>A \<^verbatim>\<open>.default(d)\<close> of the input schema, and \<^verbatim>\<open>v ?? d\<close>.\<close>

definition withDefault :: "'a \<Rightarrow> 'a option \<Rightarrow> 'a" where
  "withDefault d v = (case v of None \<Rightarrow> d | Some x \<Rightarrow> x)"

text \<open>
  A number of the input. The input schema takes \<^verbatim>\<open>credits\<close> as \<^verbatim>\<open>z.number()\<close>, with no
  check that it is whole or in a range: \<open>Whole i\<close> is the whole number \<open>i\<close>, and
  \<open>NotWhole\<close> any other number that the schema lets through (a fraction, an infinity).
\<close>

datatype number = Whole int | NotWhole

text \<open>
  The column \<^verbatim>\<open>credits\<close> is \<^verbatim>\<open>integer\<close>, four bytes and signed: the store takes a whole
  number from \<open>-2147483648\<close> to \<open>2147483647\<close> and rejects the statement for any other.
\<close>

definition int4 :: "number \<Rightarrow> int option" where
  "int4 n =
     (case n of
        Whole i \<Rightarrow> if - 2147483648 \<le> i \<and> i \<le> 2147483647 then Some i else None
      | NotWhole \<Rightarrow> None)"

text \<open>
  The input of \<^verbatim>\<open>create\<close>: the fields picked from \<^verbatim>\<open>insertModuleSchema\<close>, an optional
  field absent when \<open>None\<close>.
\<close>

record create_input =
  in_name :: string
  in_description :: "string option"
  in_code :: string
  in_icon :: "string option"
  in_color :: "string option"
  in_credits :: "number option"

text \<open>
  The insert. The input schema fills \<^verbatim>\<open>icon\<close>, \<^verbatim>\<open>color\<close> and \<^verbatim>\<open>credits\<close>, the handler
  fills \<^verbatim>\<open>description\<close>, and the columns the handler leaves out take their defaults:
  \<^verbatim>\<open>id\<close> the value \<open>uuid\<close> that \<^verbatim>\<open>defaultRandom()\<close> draws, \<^verbatim>\<open>archived\<close> false, and the
  three timestamps \<^verbatim>\<open>defaultNow()\<close>, one instant \<open>now\<close> for the statement. The column
  \<^verbatim>\<open>id\<close> is the primary key: a value already in the table makes the insert fail, and
  so does a value of \<^verbatim>\<open>credits\<close> that the integer column does not take. The handler
  catches nothing, so the store's error is what the procedure throws, and no row is added.
  \<^verbatim>\<open>returning()\<close> gives the inserted rows.
\<close>

definition create ::
  "table \<Rightarrow> int \<Rightarrow> string \<Rightarrow> string \<Rightarrow> create_input \<Rightarrow> (exn + module list) \<times> table" where
  "create db now uuid userId inp =
     (case int4 (withDefault (Whole 0) (in_credits inp)) of
        None \<Rightarrow> (Inl (OtherError ''value not accepted by an integer column''), db)
      | Some stored_credits \<Rightarrow>
          (let row = \<lparr>id_col = uuid, user_id = userId, name = in_name inp,
                      description = Some (withDefault [] (in_description inp)),
                      code = in_code inp,
                      icon = withDefault ''default'' (in_icon inp),
                      color = withDefault ''default'' (in_color inp),
                      archived = False,
                      credits = stored_credits,
                      createdAt = now, modifiedAt = now, lastVisited = now\<rparr>
           in if uuid \<in> set (map id_col db)
              then (Inl (OtherError ''duplicate key value violates unique constraint''), db)
              else (Inr [row], db @ [row])))"

subsection \<open>archive, recover, update, updateLastVisited\<close>

text \<open>
  \<^verbatim>\<open>db.update(modulesTable).set(...).where(...)\<close>: every row that satisfies the condition
  gets the new column values. The result is the number of rows changed and the new table.
\<close>

definition update_where :: "(module \<Rightarrow> bool) \<Rightarrow> (module \<Rightarrow> module) \<Rightarrow> table \<Rightarrow> nat \<times> table" where
  "update_where wh set_cols db =
     (length (filter wh db), map (\<lambda>t. if wh t then set_cols t else t) db)"

definition archive :: "table \<Rightarrow> string \<Rightarrow> string \<Rightarrow> nat \<times> table" where
  "archive db userId input_id =
     update_where (\<lambda>t. id_col t = input_id \<and> user_id t = userId) (\<lambda>t. t\<lparr>archived := True\<rparr>) db"

definition recover :: "table \<Rightarrow> string \<Rightarrow> string \<Rightarrow> nat \<times> table" where
  "recover db userId input_id =
     update_where (\<lambda>t. id_col t = input_id \<and> user_id t = userId) (\<lambda>t. t\<lparr>archived := False\<rparr>) db"

text \<open>The input of \<^verbatim>\<open>update\<close>: the picked fields, with \<^verbatim>\<open>id\<close>.\<close>

record update_input =
  up_id :: string
  up_name :: string
  up_description :: "string option"
  up_code :: string
  up_icon :: "string option"
  up_color :: "string option"
  up_credits :: "number option"

text \<open>
  \<^verbatim>\<open>update\<close>: the existence check is outside any \<^verbatim>\<open>try\<close> block, so its \<^verbatim>\<open>NOT_FOUND\<close>
  reaches the caller. \<open>now\<close> is what \<^verbatim>\<open>new Date()\<close> reads; the handler writes it to
  \<^verbatim>\<open>modifiedAt\<close> as it is, without a look at the stored value. As in \<^verbatim>\<open>create\<close>, a value of
  \<^verbatim>\<open>credits\<close> that the integer column does not take makes the statement fail.
\<close>

definition update :: "table \<Rightarrow> int \<Rightarrow> string \<Rightarrow> update_input \<Rightarrow> (exn + nat) \<times> table" where
  "update db now userId inp =
     (let moduleId = up_id inp in
      case findFirst (\<lambda>t. id_col t = moduleId \<and> user_id t = userId) db of
        None \<Rightarrow> (Inl (TRPCError NOT_FOUND ''Module not found''), db)
      | Some existingModule \<Rightarrow>
          (case int4 (withDefault (Whole 0) (up_credits inp)) of
             None \<Rightarrow> (Inl (OtherError ''value not accepted by an integer column''), db)
           | Some stored_credits \<Rightarrow>
               (case update_where (\<lambda>t. id_col t = moduleId \<and> user_id t = userId)
                       (\<lambda>t. t\<lparr>color := withDefault ''default'' (up_color inp),
                              icon := withDefault ''default'' (up_icon inp),
                              name := up_name inp,
                              code := up_code inp,
                              credits := stored_credits,
                              description := Some (withDefault [] (up_description inp)),
                              modifiedAt := now\<rparr>) db
                of (n, db') \<Rightarrow> (Inr n, db'))))"

definition updateLastVisited :: "table \<Rightarrow> int \<Rightarrow> string \<Rightarrow> string \<Rightarrow> nat \<times> table" where
  "updateLastVisited db now userId input_id =
     update_where (\<lambda>t. id_col t = input_id \<and> user_id t = userId) (\<lambda>t. t\<lparr>lastVisited := now\<rparr>) db"

text \<open>
  A sequence of \<^verbatim>\<open>update\<close> calls, each with the clock reading, the caller and the input:
  the table before the first call and after each call.
\<close>

fun update_trace :: "table \<Rightarrow> (int \<times> string \<times> update_input) list \<Rightarrow> table list" where
  "update_trace db [] = [db]"
| "update_trace db ((now, userId, inp) # calls) =
     db # update_trace (snd (update db now userId inp)) calls"

section \<open>The rate limiter\<close>

text \<open>
  The key-value store: a key holds an integer and, once \<^verbatim>\<open>EXPIRE\<close> has set one, the
  instant (in milliseconds) at which it expires. A key whose instant has passed is gone.
\<close>

record entry =
  val :: int
  expireAt :: "int option"

type_synonym redis = "string \<rightharpoonup> entry"

datatype command = INCR | EXPIRE | TTL

definition lookup :: "redis \<Rightarrow> int \<Rightarrow> string \<Rightarrow> entry option" where
  "lookup r now key =
     (case r key of
        None \<Rightarrow> None
      | Some e \<Rightarrow>
          (case expireAt e of
             None \<Rightarrow> Some e
           | Some t \<Rightarrow> if t \<le> now then None else Some e))"

text \<open>
  The three commands the limiter sends. \<open>fails c\<close> says that command \<open>c\<close> of this call
  does not reach the store and throws. \<^verbatim>\<open>INCR\<close> starts a missing key at 1; \<^verbatim>\<open>EXPIRE\<close>
  with a timeout that is not positive deletes the key; \<^verbatim>\<open>TTL\<close> answers in whole seconds,
  -2 for a missing key and -1 for a key without expiry.
\<close>

definition redis_incr :: "(command \<Rightarrow> bool) \<Rightarrow> int \<Rightarrow> redis \<Rightarrow> string \<Rightarrow> exn + (int \<times> redis)" where
  "redis_incr fails now r key =
     (if fails INCR then Inl (OtherError ''store unreachable'')
      else (case lookup r now key of
              None \<Rightarrow> Inr (1, r(key \<mapsto> \<lparr>val = 1, expireAt = None\<rparr>))
            | Some e \<Rightarrow> Inr (val e + 1, r(key \<mapsto> e\<lparr>val := val e + 1\<rparr>))))"

definition redis_expire :: "(command \<Rightarrow> bool) \<Rightarrow> int \<Rightarrow> redis \<Rightarrow> string \<Rightarrow> int \<Rightarrow> exn + redis" where
  "redis_expire fails now r key seconds =
     (if fails EXPIRE then Inl (OtherError ''store unreachable'')
      else (case lookup r now key of
              None \<Rightarrow> Inr r
            | Some e \<Rightarrow>
                if seconds \<le> 0 then Inr (r(key := None))
                else Inr (r(key \<mapsto> e\<lparr>expireAt := Some (now + seconds * 1000)\<rparr>))))"

definition redis_ttl :: "(command \<Rightarrow> bool) \<Rightarrow> int \<Rightarrow> redis \<Rightarrow> string \<Rightarrow> exn + int" where
  "redis_ttl fails now r key =
     (if fails TTL then Inl (OtherError ''store unreachable'')
      else (case lookup r now key of
              None \<Rightarrow> Inr (- 2)
            | Some e \<Rightarrow>
                (case expireAt e of
                   None \<Rightarrow> Inr (- 1)
                 | Some t \<Rightarrow> Inr ((t - now + 500) div 1000))))"

record RateLimitResult =
  success :: bool
  remaining :: int
  reset :: int

definition rateLimit_key :: "string \<Rightarrow> string" where
  "rateLimit_key identifier = ''rate_limit:'' @ identifier"

text \<open>
  The \<^verbatim>\<open>try\<close> block of \<^verbatim>\<open>rateLimit\<close>, with the store as each command leaves it.
  \<open>now\<close> is what \<^verbatim>\<open>Date.now()\<close> reads, one instant for the call.
\<close>

definition rateLimit_try ::
  "(command \<Rightarrow> bool) \<Rightarrow> int \<Rightarrow> redis \<Rightarrow> string \<Rightarrow> int \<Rightarrow> int \<Rightarrow> (exn + RateLimitResult) \<times> redis" where
  "rateLimit_try fails now r identifier limit window =
     (let key = rateLimit_key identifier in
      case redis_incr fails now r key of
        Inl error \<Rightarrow> (Inl error, r)
      | Inr (count, r1) \<Rightarrow>
          (case (if count = 1 then redis_expire fails now r1 key window else Inr r1) of
             Inl error \<Rightarrow> (Inl error, r1)
           | Inr r2 \<Rightarrow>
               (case redis_ttl fails now r2 key of
                  Inl error \<Rightarrow> (Inl error, r2)
                | Inr ttl \<Rightarrow>
                    (Inr \<lparr>success = (count \<le> limit),
                          remaining = max 0 (limit - count),
                          reset = now + ttl * 1000\<rparr>, r2))))"

text \<open>\<^verbatim>\<open>rateLimit\<close>: the \<^verbatim>\<open>catch\<close> block turns every thrown value into the open answer.\<close>

definition rateLimit ::
  "(command \<Rightarrow> bool) \<Rightarrow> int \<Rightarrow> redis \<Rightarrow> string \<Rightarrow> int \<Rightarrow> int \<Rightarrow> RateLimitResult \<times> redis" where
  "rateLimit fails now r identifier limit window =
     (case rateLimit_try fails now r identifier limit window of
        (Inr result, r') \<Rightarrow> (result, r')
      | (Inl error, r') \<Rightarrow>
          (\<lparr>success = True, remaining = limit, reset = now + window * 1000\<rparr>, r'))"

text \<open>
  Calls of \<^verbatim>\<open>rateLimit\<close> for one identifier at the given clock readings, the store
  reachable throughout: the results in order.
\<close>

fun rateLimit_calls :: "redis \<Rightarrow> int list \<Rightarrow> string \<Rightarrow> int \<Rightarrow> int \<Rightarrow> RateLimitResult list" where
  "rateLimit_calls r [] identifier limit window = []"
| "rateLimit_calls r (now # later) identifier limit window =
     (case rateLimit (\<lambda>c. False) now r identifier limit window of
        (result, r') \<Rightarrow> result # rateLimit_calls r' later identifier limit window)"

section \<open>Sample data\<close>

definition sample :: "string \<Rightarrow> string \<Rightarrow> int \<Rightarrow> module" where
  "sample i u lv =
     \<lparr>id_col = i, user_id = u, name = ''Algorithms'', description = None, code = ''CS201'',
      icon = ''default'', color = ''default'', archived = False, credits = 4,
      createdAt = 0, modifiedAt = 0, lastVisited = lv\<rparr>"

text \<open>Three modules of user \<open>u1\<close> and one of user \<open>u2\<close>.\<close>

definition db4 :: table where
  "db4 = [sample ''c'' ''u1'' 10, sample ''z'' ''u2'' 25, sample ''a'' ''u1'' 30, sample ''b'' ''u1'' 20]"

text \<open>Twenty-one modules of user \<open>u1\<close>, with ids \<open>m\<close>, \<open>mm\<close>, \<open>mmm\<close> and so on.\<close>

definition db21 :: table where
  "db21 = map (\<lambda>n. sample (replicate (Suc n) CHR ''m'') ''u1'' (int n)) [0..<21]"

definition algorithms :: update_input where
  "algorithms = \<lparr>up_id = ''a'', up_name = ''Algorithms II'', up_description = None,
                 up_code = ''CS202'', up_icon = None, up_color = Some ''red'', up_credits = Some (Whole 5)\<rparr>"

definition cs201 :: create_input where
  "cs201 = \<lparr>in_name = ''Algorithms'', in_description = None, in_code = ''CS201'',
            in_icon = None, in_color = None, in_credits = Some (Whole 4)\<rparr>"

section \<open>Properties of the page query\<close>

lemma findMany_matching:
  "findMany (modulesWhere userId (resolveCursor db cursor)) lim db = take lim (matching db userId cursor)"
  by (simp add: findMany_def matching_def)

lemma butlast_take_Suc: "n < length xs \<Longrightarrow> butlast (take (Suc n) xs) = take n xs"
  by (simp add: butlast_take)

lemma getUserModules_eq:
  "getUserModules db userId limit cursor =
     (let S = matching db userId cursor in
      \<lparr>items = take limit S,
       nextCursor =
         (if limit < length S \<and> 0 < limit then Some (id_col (S ! (limit - 1))) else None)\<rparr>)"
proof (cases "limit < length (matching db userId cursor)")
  case True
  let ?S = "matching db userId cursor"
  have len: "length (take (Suc limit) ?S) = Suc limit"
    using True by simp
  have bl: "butlast (take (Suc limit) ?S) = take limit ?S"
    using True by (rule butlast_take_Suc)
  have lst: "last (take limit ?S) = ?S ! (limit - 1)" if "0 < limit"
  proof -
    have ne: "take limit ?S \<noteq> []" using True that by auto
    have "last (take limit ?S) = take limit ?S ! (length (take limit ?S) - 1)"
      using ne by (rule last_conv_nth)
    also have "length (take limit ?S) = limit" using True by simp
    also have "take limit ?S ! (limit - 1) = ?S ! (limit - 1)" using that by simp
    finally show ?thesis .
  qed
  have emp: "(take limit ?S = []) = (limit = 0)"
    using True by auto
  show ?thesis
    unfolding getUserModules_def Let_def findMany_matching
    using True lst by (auto simp add: len bl emp)
next
  case False
  let ?S = "matching db userId cursor"
  have tk: "take (limit + 1) ?S = ?S" "take limit ?S = ?S"
    using False by simp_all
  show ?thesis
    unfolding getUserModules_def Let_def findMany_matching
    using False by (simp add: tk)
qed

lemma items_getUserModules:
  "items (getUserModules db userId limit cursor) = take limit (matching db userId cursor)"
  by (simp add: getUserModules_eq Let_def)

lemma nextCursor_getUserModules:
  "nextCursor (getUserModules db userId limit cursor) =
     (if limit < length (matching db userId cursor) \<and> 0 < limit
      then Some (id_col (matching db userId cursor ! (limit - 1)))
      else None)"
  by (simp add: getUserModules_eq Let_def)

lemma matching_sorted:
  "sorted_wrt (\<lambda>a b. lastVisited b \<le> lastVisited a) (matching db userId cursor)"
proof -
  have "sorted (map (\<lambda>t. - lastVisited t) (matching db userId cursor))"
    by (simp add: matching_def)
  then show ?thesis by (simp add: sorted_map)
qed

lemma set_matching:
  "set (matching db userId cursor) = {t \<in> set db. modulesWhere userId (resolveCursor db cursor) t}"
  by (auto simp add: matching_def)

lemma modulesWhere_None: "modulesWhere userId None = (\<lambda>t. user_id t = userId)"
  by (rule ext) (simp add: modulesWhere_def)

lemma modulesWhere_Some:
  "modulesWhere userId (Some d) = (\<lambda>t. user_id t = userId \<and> lastVisited t < d)"
  by (rule ext) (simp add: modulesWhere_def)

lemma resolveCursor_found:
  "c \<noteq> [] \<Longrightarrow> findFirst (\<lambda>t. id_col t = c) db = Some cm \<Longrightarrow>
   resolveCursor db (Some c) = Some (lastVisited cm)"
  by (simp add: resolveCursor_def)

lemma resolveCursor_missing:
  "findFirst (\<lambda>t. id_col t = c) db = None \<Longrightarrow> resolveCursor db (Some c) = None"
  by (simp add: resolveCursor_def)

lemma matching_bounded:
  "resolveCursor db cursor = Some d \<Longrightarrow> m \<in> set (matching db userId cursor) \<Longrightarrow> lastVisited m < d"
  by (simp add: set_matching modulesWhere_def)

lemma matching_owned:
  "m \<in> set (matching db userId cursor) \<Longrightarrow> m \<in> set db \<and> user_id m = userId"
  by (auto simp add: set_matching modulesWhere_def split: option.splits)

lemma length_matching:
  "length (matching db userId cursor) = length (filter (modulesWhere userId (resolveCursor db cursor)) db)"
  by (simp add: matching_def)

lemma findFirst_unique:
  assumes "distinct (map id_col db)" and "m \<in> set db"
  shows "findFirst (\<lambda>t. id_col t = id_col m) db = Some m"
proof -
  have "\<exists>x. find (\<lambda>t. id_col t = id_col m) db = Some x"
    using assms(2) by (cases "find (\<lambda>t. id_col t = id_col m) db") (auto simp add: find_None_iff)
  then obtain x where x: "find (\<lambda>t. id_col t = id_col m) db = Some x" by blast
  then have "x \<in> set db" and "id_col x = id_col m"
    by (auto simp add: find_Some_iff)
  moreover have "inj_on id_col (set db)"
    using assms(1) by (simp add: distinct_map)
  ultimately have "x = m" using assms(2) by (auto dest: inj_onD)
  with x show ?thesis by (simp add: findFirst_def)
qed

lemma take_sorted_ge:
  assumes "sorted_wrt (\<lambda>a b. lastVisited b \<le> lastVisited a) S"
      and "n < length S" and "m \<in> set (take (Suc n) S)"
  shows "lastVisited (S ! n) \<le> lastVisited m"
proof -
  from assms(3) obtain i where i: "i < length (take (Suc n) S)" "m = take (Suc n) S ! i"
    by (auto simp add: in_set_conv_nth)
  then have le: "i \<le> n" and mi: "m = S ! i" by simp_all
  show ?thesis
  proof (cases "i = n")
    case True
    with mi show ?thesis by simp
  next
    case False
    with le have "i < n" by simp
    with assms(1,2) have "lastVisited (S ! n) \<le> lastVisited (S ! i)"
      using sorted_wrt_nth_less [of "\<lambda>a b. lastVisited b \<le> lastVisited a" S i n] by simp
    with mi show ?thesis by simp
  qed
qed

lemma second_page_disjoint:
  assumes dist: "distinct (map id_col db)" and ne: "\<forall>m \<in> set db. id_col m \<noteq> []"
      and lim: "0 < limit" and more: "limit < length (filter (\<lambda>t. user_id t = userId) db)"
  shows "\<exists>c. nextCursor (getUserModules db userId limit None) = Some c
          \<and> set (items (getUserModules db userId limit (Some c)))
              \<inter> set (items (getUserModules db userId limit None)) = {}
          \<and> id_col ` set (items (getUserModules db userId limit (Some c)))
              \<inter> id_col ` set (items (getUserModules db userId limit None)) = {}"
proof -
  let ?S = "matching db userId None"
  let ?x = "?S ! (limit - 1)"
  let ?c = "id_col ?x"
  have len: "limit < length ?S"
    using more by (simp add: length_matching resolveCursor_def modulesWhere_None)
  have nc: "nextCursor (getUserModules db userId limit None) = Some ?c"
    using len lim by (simp add: nextCursor_getUserModules)
  have xin: "?x \<in> set ?S" using len by simp
  then have xdb: "?x \<in> set db" by (simp add: matching_owned)
  have cne: "?c \<noteq> []" using ne xdb by blast
  have ff: "findFirst (\<lambda>t. id_col t = ?c) db = Some ?x"
    using dist xdb by (rule findFirst_unique)
  have rc: "resolveCursor db (Some ?c) = Some (lastVisited ?x)"
    using cne ff by (rule resolveCursor_found)
  have p2: "\<forall>m \<in> set (items (getUserModules db userId limit (Some ?c))). lastVisited m < lastVisited ?x"
  proof
    fix m assume "m \<in> set (items (getUserModules db userId limit (Some ?c)))"
    then have "m \<in> set (matching db userId (Some ?c))"
      unfolding items_getUserModules by (rule in_set_takeD)
    with rc show "lastVisited m < lastVisited ?x" by (rule matching_bounded)
  qed
  have p1: "\<forall>m \<in> set (items (getUserModules db userId limit None)). lastVisited ?x \<le> lastVisited m"
  proof
    fix m assume m: "m \<in> set (items (getUserModules db userId limit None))"
    have "limit - 1 < length ?S" using len by simp
    moreover have "m \<in> set (take (Suc (limit - 1)) ?S)"
      using m lim by (simp add: items_getUserModules)
    ultimately show "lastVisited ?x \<le> lastVisited m"
      using matching_sorted [of db userId None] by (simp add: take_sorted_ge)
  qed
  have disj: "set (items (getUserModules db userId limit (Some ?c)))
          \<inter> set (items (getUserModules db userId limit None)) = {}"
    using p1 p2 by fastforce
  have sub: "set (items (getUserModules db userId limit cur)) \<subseteq> set db" for cur
    unfolding items_getUserModules using matching_owned by (blast dest: in_set_takeD)
  have inj: "inj_on id_col (set db)"
    using dist by (simp add: distinct_map)
  have "id_col ` set (items (getUserModules db userId limit (Some ?c)))
          \<inter> id_col ` set (items (getUserModules db userId limit None)) = {}"
  proof (rule ccontr)
    assume "id_col ` set (items (getUserModules db userId limit (Some ?c)))
          \<inter> id_col ` set (items (getUserModules db userId limit None)) \<noteq> {}"
    then obtain a b where a: "a \<in> set (items (getUserModules db userId limit (Some ?c)))"
        and b: "b \<in> set (items (getUserModules db userId limit None))"
        and ab: "id_col a = id_col b"
      by auto
    from a b sub have "a \<in> set db" "b \<in> set db" by blast+
    with inj ab have "a = b" by (auto dest: inj_onD)
    with a b disj show False by blast
  qed
  with nc disj show ?thesis by blast
qed

lemma db4_page1:
  "getUserModules db4 ''u1'' 2 None =
     \<lparr>items = [sample ''a'' ''u1'' 30, sample ''b'' ''u1'' 20], nextCursor = Some ''b''\<rparr>"
  by (simp add: getUserModules_def resolveCursor_def findFirst_def findMany_def modulesWhere_def
      db4_def sample_def Let_def)

lemma db4_page2:
  "getUserModules db4 ''u1'' 2 (Some ''b'') = \<lparr>items = [sample ''c'' ''u1'' 10], nextCursor = None\<rparr>"
  by (simp add: getUserModules_def resolveCursor_def findFirst_def findMany_def modulesWhere_def
      db4_def sample_def Let_def)

lemma db21_distinct: "distinct (map id_col db21)"
  by code_simp

lemma db21_ids: "list_all (\<lambda>m. id_col m \<noteq> []) db21"
  by code_simp

lemma db21_count: "20 < length (filter (\<lambda>t. user_id t = ''u1'') db21)"
  by code_simp

lemma db21_page1: "nextCursor (getUserModules db21 ''u1'' 20 None) = Some ''mm''"
  by code_simp

lemma db21_page2: "items (getUserModules db21 ''u1'' 20 (Some ''mm'')) = [sample ''m'' ''u1'' 0]"
  by code_simp

text \<open>
  Rows that share the \<^verbatim>\<open>lastVisited\<close> of the last item of a page are not on the next
  page: of three rows visited at the same instant, two are listed and the third is on no
  page.
\<close>

lemma tied_rows_are_skipped:
  "getUserModules [sample ''a'' ''u1'' 7, sample ''b'' ''u1'' 7, sample ''c'' ''u1'' 7] ''u1'' 2 None
     = \<lparr>items = [sample ''a'' ''u1'' 7, sample ''b'' ''u1'' 7], nextCursor = Some ''b''\<rparr>
   \<and> getUserModules [sample ''a'' ''u1'' 7, sample ''b'' ''u1'' 7, sample ''c'' ''u1'' 7] ''u1'' 2 (Some ''b'')
     = \<lparr>items = [], nextCursor = None\<rparr>"
  by (simp add: getUserModules_def resolveCursor_def findFirst_def findMany_def modulesWhere_def
      sample_def Let_def)

section \<open>Properties of the mutations\<close>

lemma findFirst_not_owned:
  assumes "\<forall>m \<in> set db. id_col m = i \<longrightarrow> user_id m \<noteq> userId"
  shows "findFirst (\<lambda>t. id_col t = i \<and> user_id t = userId) db = None"
  using assms by (auto simp add: findFirst_def find_None_iff)

lemma update_where_none:
  assumes "\<forall>m \<in> set db. \<not> wh m"
  shows "update_where wh f db = (0, db)"
proof -
  have "filter wh db = []" using assms by (simp add: filter_empty_conv)
  moreover have "map (\<lambda>t. if wh t then f t else t) db = db"
    using assms by (simp add: map_idI)
  ultimately show ?thesis by (simp add: update_where_def)
qed

lemma update_where_length: "length (snd (update_where wh f db)) = length db"
  by (simp add: update_where_def)

lemma update_where_nth:
  "k < length db \<Longrightarrow> snd (update_where wh f db) ! k = (if wh (db ! k) then f (db ! k) else db ! k)"
  by (simp add: update_where_def)

lemma update_length: "length (snd (update db now userId inp)) = length db"
  by (simp add: update_def Let_def update_where_def split: option.splits)

lemma update_nth:
  assumes "k < length db"
  shows "createdAt (snd (update db now userId inp) ! k) = createdAt (db ! k)
       \<and> id_col (snd (update db now userId inp) ! k) = id_col (db ! k)
       \<and> user_id (snd (update db now userId inp) ! k) = user_id (db ! k)
       \<and> (modifiedAt (snd (update db now userId inp) ! k) = modifiedAt (db ! k)
          \<or> modifiedAt (snd (update db now userId inp) ! k) = now)"
  using assms by (simp add: update_def Let_def update_where_def split: option.splits)

lemma update_trace_modifiedAt:
  assumes "k < length db" and "createdAt (db ! k) \<le> modifiedAt (db ! k)"
      and "sorted (map fst calls)" and "\<forall>c \<in> set calls. modifiedAt (db ! k) \<le> fst c"
  shows "sorted (map (\<lambda>s. modifiedAt (s ! k)) (update_trace db calls))
       \<and> (\<forall>s \<in> set (update_trace db calls).
            createdAt (s ! k) \<le> modifiedAt (s ! k) \<and> modifiedAt (db ! k) \<le> modifiedAt (s ! k))"
  using assms
proof (induction calls arbitrary: db)
  case Nil
  then show ?case by simp
next
  case (Cons call calls)
  obtain now userId inp where call: "call = (now, userId, inp)"
    by (cases call) auto
  let ?db' = "snd (update db now userId inp)"
  have now: "modifiedAt (db ! k) \<le> now"
    using Cons.prems(4) call by simp
  have later: "\<forall>c \<in> set calls. now \<le> fst c"
    using Cons.prems(3) call by simp
  have k': "k < length ?db'"
    using Cons.prems(1) by (simp add: update_length)
  have nth: "createdAt (?db' ! k) = createdAt (db ! k)"
    "modifiedAt (?db' ! k) = modifiedAt (db ! k) \<or> modifiedAt (?db' ! k) = now"
    using update_nth [OF Cons.prems(1), of now userId inp] by simp_all
  have mono: "modifiedAt (db ! k) \<le> modifiedAt (?db' ! k)"
    using nth(2) now by auto
  have c': "createdAt (?db' ! k) \<le> modifiedAt (?db' ! k)"
    using nth(1) Cons.prems(2) mono by simp
  have s': "sorted (map fst calls)"
    using Cons.prems(3) by simp
  have b': "\<forall>c \<in> set calls. modifiedAt (?db' ! k) \<le> fst c"
  proof
    fix c assume c: "c \<in> set calls"
    then have "now \<le> fst c" using later by simp
    moreover have "modifiedAt (db ! k) \<le> fst c" using Cons.prems(4) c by simp
    ultimately show "modifiedAt (?db' ! k) \<le> fst c" using nth(2) by auto
  qed
  have ih: "sorted (map (\<lambda>s. modifiedAt (s ! k)) (update_trace ?db' calls))
       \<and> (\<forall>s \<in> set (update_trace ?db' calls).
            createdAt (s ! k) \<le> modifiedAt (s ! k) \<and> modifiedAt (?db' ! k) \<le> modifiedAt (s ! k))"
    using Cons.IH [OF k' c' s' b'] .
  have tr: "update_trace db (call # calls) = db # update_trace ?db' calls"
    by (simp add: call)
  show ?case
    unfolding tr using ih mono Cons.prems(2) by fastforce
qed

text \<open>A module the caller owns is returned as it is stored.\<close>

lemma getById_owned:
  assumes "distinct (map id_col db)" and "m \<in> set db" and "user_id m = userId"
  shows "getById db userId (id_col m) = Inr m"
proof -
  have "\<exists>x. find (\<lambda>t. id_col t = id_col m \<and> user_id t = userId) db = Some x"
    using assms(2,3)
    by (cases "find (\<lambda>t. id_col t = id_col m \<and> user_id t = userId) db") (auto simp add: find_None_iff)
  then obtain x where x: "find (\<lambda>t. id_col t = id_col m \<and> user_id t = userId) db = Some x"
    by blast
  then have "x \<in> set db" and "id_col x = id_col m"
    by (auto simp add: find_Some_iff)
  moreover have "inj_on id_col (set db)"
    using assms(1) by (simp add: distinct_map)
  ultimately have "x = m" using assms(2) by (auto dest: inj_onD)
  with x show ?thesis
    by (simp add: getById_def getById_handler_def getById_try_def findFirst_def)
qed

text \<open>
  The ids of the table stay distinct and not empty under every procedure: \<^verbatim>\<open>create\<close>
  adds at most one row, with an id that is new, and the others keep every id.
\<close>

lemma create_keeps_ids_distinct:
  assumes "distinct (map id_col db)"
  shows "distinct (map id_col (snd (create db now uuid userId inp)))"
  using assms by (simp add: create_def Let_def split: option.splits)

lemma create_keeps_ids_nonempty:
  assumes "\<forall>m \<in> set db. id_col m \<noteq> []" and "uuid \<noteq> []"
  shows "\<forall>m \<in> set (snd (create db now uuid userId inp)). id_col m \<noteq> []"
  using assms by (simp add: create_def Let_def split: option.splits)

lemma update_where_keeps_ids:
  assumes "\<And>t. id_col (f t) = id_col t"
  shows "map id_col (snd (update_where wh f db)) = map id_col db"
  using assms by (simp add: update_where_def)

lemma mutations_keep_ids:
  "map id_col (snd (archive db userId i)) = map id_col db"
  "map id_col (snd (recover db userId i)) = map id_col db"
  "map id_col (snd (updateLastVisited db now userId i)) = map id_col db"
  "map id_col (snd (update db now userId inp)) = map id_col db"
  by (simp_all add: archive_def recover_def updateLastVisited_def update_def Let_def
      update_where_def split: option.splits)

text \<open>The insert of \<^verbatim>\<open>create\<close> fails, and changes nothing, when the drawn id is taken.\<close>

lemma create_duplicate:
  assumes "uuid \<in> set (map id_col db)"
  shows "\<exists>e. create db now uuid userId inp = (Inl e, db)"
  using assms by (simp add: create_def Let_def split: option.splits)

text \<open>
  What \<^verbatim>\<open>create\<close> does, by the two checks of the store: the row it inserts, when the
  integer column takes the credits and the drawn id is new, and nothing otherwise.
\<close>

lemma create_cases:
  "create db now uuid userId inp =
     (case int4 (withDefault (Whole 0) (in_credits inp)) of
        None \<Rightarrow> (Inl (OtherError ''value not accepted by an integer column''), db)
      | Some c \<Rightarrow>
          if uuid \<in> set (map id_col db)
          then (Inl (OtherError ''duplicate key value violates unique constraint''), db)
          else (Inr [\<lparr>id_col = uuid, user_id = userId, name = in_name inp,
                       description = Some (withDefault [] (in_description inp)),
                       code = in_code inp,
                       icon = withDefault ''default'' (in_icon inp),
                       color = withDefault ''default'' (in_color inp),
                       archived = False, credits = c,
                       createdAt = now, modifiedAt = now, lastVisited = now\<rparr>],
                db @ [\<lparr>id_col = uuid, user_id = userId, name = in_name inp,
                       description = Some (withDefault [] (in_description inp)),
                       code = in_code inp,
                       icon = withDefault ''default'' (in_icon inp),
                       color = withDefault ''default'' (in_color inp),
                       archived = False, credits = c,
                       createdAt = now, modifiedAt = now, lastVisited = now\<rparr>]))"
  by (simp add: create_def Let_def split: option.splits)

text \<open>A successful \<^verbatim>\<open>update\<close> of a module the caller owns stamps it with the clock reading.\<close>

lemma update_stamps_clock:
  assumes "k < length db" and "id_col (db ! k) = up_id inp" and "user_id (db ! k) = userId"
      and "int4 (withDefault (Whole 0) (up_credits inp)) = Some c"
  shows "modifiedAt (snd (update db now userId inp) ! k) = now"
proof -
  have "db ! k \<in> set db" using assms(1) by simp
  then have "find (\<lambda>t. id_col t = up_id inp \<and> user_id t = userId) db \<noteq> None"
    using assms(2,3) by (auto simp add: find_None_iff)
  then obtain x where "findFirst (\<lambda>t. id_col t = up_id inp \<and> user_id t = userId) db = Some x"
    by (auto simp add: findFirst_def)
  then show ?thesis
    using assms by (simp add: update_def Let_def update_where_def)
qed

section \<open>Properties of the rate limiter\<close>

lemma rateLimit_counting:
  assumes "r (rateLimit_key identifier) = Some \<lparr>val = c, expireAt = Some T\<rparr>"
      and "1 \<le> c" and "\<forall>t \<in> set later. t < T" and "n < length later"
  shows "success (rateLimit_calls r later identifier limit window ! n) = (c + int n + 1 \<le> limit)
       \<and> remaining (rateLimit_calls r later identifier limit window ! n) = max 0 (limit - (c + int n + 1))"
  using assms
proof (induction later arbitrary: r c n)
  case Nil
  then show ?case by simp
next
  case (Cons now later)
  let ?key = "rateLimit_key identifier"
  let ?r' = "r(?key \<mapsto> \<lparr>val = c + 1, expireAt = Some T\<rparr>)"
  have live: "lookup r now ?key = Some \<lparr>val = c, expireAt = Some T\<rparr>"
    using Cons.prems(1,3) by (simp add: lookup_def)
  have live': "lookup ?r' now ?key = Some \<lparr>val = c + 1, expireAt = Some T\<rparr>"
    using Cons.prems(3) by (simp add: lookup_def)
  have step: "rateLimit (\<lambda>c. False) now r identifier limit window =
      (\<lparr>success = (c + 1 \<le> limit), remaining = max 0 (limit - (c + 1)),
        reset = now + ((T - now + 500) div 1000) * 1000\<rparr>, ?r')"
    using Cons.prems(2) live live'
    by (simp add: rateLimit_def rateLimit_try_def redis_incr_def redis_ttl_def Let_def)
  show ?case
  proof (cases n)
    case 0
    then show ?thesis by (simp add: step)
  next
    case (Suc m)
    have "success (rateLimit_calls ?r' later identifier limit window ! m) = ((c + 1) + int m + 1 \<le> limit)
       \<and> remaining (rateLimit_calls ?r' later identifier limit window ! m) = max 0 (limit - ((c + 1) + int m + 1))"
      using Cons.prems Suc by (intro Cons.IH) simp_all
    then show ?thesis by (simp add: step Suc add.assoc)
  qed
qed

lemma rateLimit_first:
  assumes "lookup r t1 (rateLimit_key identifier) = None"
  shows "success (fst (rateLimit (\<lambda>c. False) t1 r identifier limit window)) = (1 \<le> limit)
       \<and> remaining (fst (rateLimit (\<lambda>c. False) t1 r identifier limit window)) = max 0 (limit - 1)
       \<and> (0 < window \<longrightarrow>
            snd (rateLimit (\<lambda>c. False) t1 r identifier limit window) (rateLimit_key identifier)
              = Some \<lparr>val = 1, expireAt = Some (t1 + window * 1000)\<rparr>)"
  using assms
  by (simp add: rateLimit_def rateLimit_try_def redis_incr_def redis_expire_def redis_ttl_def
      lookup_def Let_def)

lemma scenario_u1:
  "map (\<lambda>x. (success x, remaining x)) (rateLimit_calls Map.empty [0, 1000, 2000, 59999] ''u1'' 3 60)
     = [(True, 2), (True, 1), (True, 0), (False, 0)]"
  by (simp add: rateLimit_def rateLimit_try_def redis_incr_def redis_expire_def redis_ttl_def lookup_def Let_def)

lemma rateLimit_caught:
  assumes "fst (rateLimit_try fails now r identifier limit window) = Inl error"
  shows "fst (rateLimit fails now r identifier limit window) =
           \<lparr>success = True, remaining = limit, reset = now + window * 1000\<rparr>"
  using assms by (cases "rateLimit_try fails now r identifier limit window") (simp add: rateLimit_def)

lemma redis_incr_ok:
  assumes "\<not> fails INCR"
  shows "\<exists>count r1. redis_incr fails now r key = Inr (count, r1)
           \<and> (lookup r now key = None \<longrightarrow> count = 1)"
  using assms by (cases "lookup r now key") (simp_all add: redis_incr_def)

lemma rateLimit_try_throws:
  assumes "fails INCR \<or> fails TTL
           \<or> (fails EXPIRE \<and> lookup r now (rateLimit_key identifier) = None)"
  shows "\<exists>error. fst (rateLimit_try fails now r identifier limit window) = Inl error"
proof (cases "fails INCR")
  case True
  then show ?thesis by (simp add: rateLimit_try_def redis_incr_def)
next
  case noincr: False
  let ?key = "rateLimit_key identifier"
  obtain count r1 where incr: "redis_incr fails now r ?key = Inr (count, r1)"
      and one: "lookup r now ?key = None \<longrightarrow> count = 1"
    using redis_incr_ok [of fails now r ?key] noincr by auto
  show ?thesis
  proof (cases "if count = 1 then redis_expire fails now r1 ?key window else Inr r1")
    case (Inl e)
    then show ?thesis by (simp add: rateLimit_try_def incr)
  next
    case (Inr r2)
    show ?thesis
    proof (cases "fails TTL")
      case True
      then show ?thesis by (simp add: rateLimit_try_def incr Inr redis_ttl_def)
    next
      case False
      with noincr assms have ex: "fails EXPIRE" and fresh: "lookup r now ?key = None"
        by simp_all
      from one fresh have "count = 1" by simp
      with ex Inr show ?thesis by (simp add: redis_expire_def)
    qed
  qed
qed

section \<open>Results\<close>

text \<open>
  C1. \<^verbatim>\<open>getById\<close> on an id that no row of the caller carries is expected to fail with an
  error of the not-found class. It fails with \<^verbatim>\<open>INTERNAL_SERVER_ERROR\<close>, on the empty
  table and on a table where the id belongs to another user: the \<^verbatim>\<open>BAD_REQUEST\<close> error
  with the message \<open>Module not found\<close>, thrown inside the \<^verbatim>\<open>try\<close> block, is caught by
  the \<^verbatim>\<open>catch\<close> block of the same statement and replaced.
\<close>

theorem getById_absent_is_internal_error:
  "getById [] ''u1'' ''m1'' =
     Inl (TRPCError INTERNAL_SERVER_ERROR ''An error occurred while fetching the module'')
   \<and> getById db4 ''u1'' ''z'' =
     Inl (TRPCError INTERNAL_SERVER_ERROR ''An error occurred while fetching the module'')
   \<and> \<not> is_not_found (TRPCError INTERNAL_SERVER_ERROR ''An error occurred while fetching the module'')
   \<and> trpc_status INTERNAL_SERVER_ERROR = 500
   \<and> statusCode (NotFoundError ''Module'' (Some ''m1'')) = 404"
  by (simp add: getById_def getById_handler_def getById_try_def getById_catch_def findFirst_def
      db4_def sample_def NotFoundError_def)

text \<open>
  C2. In a table whose ids are distinct and not empty (the column is a generated primary
  key), for a user with more than 20 modules: the first page with limit 20 and no cursor has
  at most 20 items, ordered by \<^verbatim>\<open>lastVisited\<close> descending, it carries a \<^verbatim>\<open>nextCursor\<close>,
  and the page fetched with that cursor shares no item with the first page.
\<close>

theorem getUserModules_second_page_no_overlap:
  assumes "distinct (map id_col db)" and "\<forall>m \<in> set db. id_col m \<noteq> []"
      and "20 < length (filter (\<lambda>t. user_id t = userId) db)"
  shows "length (items (getUserModules db userId 20 None)) \<le> 20
    \<and> sorted_wrt (\<lambda>a b. lastVisited b \<le> lastVisited a) (items (getUserModules db userId 20 None))
    \<and> (\<exists>c. nextCursor (getUserModules db userId 20 None) = Some c
          \<and> set (items (getUserModules db userId 20 (Some c)))
              \<inter> set (items (getUserModules db userId 20 None)) = {}
          \<and> id_col ` set (items (getUserModules db userId 20 (Some c)))
              \<inter> id_col ` set (items (getUserModules db userId 20 None)) = {})"
proof -
  have "length (items (getUserModules db userId 20 None)) \<le> 20"
    by (simp add: items_getUserModules)
  moreover have "sorted_wrt (\<lambda>a b. lastVisited b \<le> lastVisited a) (items (getUserModules db userId 20 None))"
    unfolding items_getUserModules using matching_sorted by (rule sorted_wrt_take)
  moreover have "\<exists>c. nextCursor (getUserModules db userId 20 None) = Some c
          \<and> set (items (getUserModules db userId 20 (Some c)))
              \<inter> set (items (getUserModules db userId 20 None)) = {}
          \<and> id_col ` set (items (getUserModules db userId 20 (Some c)))
              \<inter> id_col ` set (items (getUserModules db userId 20 None)) = {}"
    using assms by (intro second_page_disjoint) simp_all
  ultimately show ?thesis by blast
qed

theorem getUserModules_second_page_no_overlap_witness:
  "distinct (map id_col db21)
   \<and> list_all (\<lambda>m. id_col m \<noteq> []) db21
   \<and> 20 < length (filter (\<lambda>t. user_id t = ''u1'') db21)
   \<and> nextCursor (getUserModules db21 ''u1'' 20 None) = Some ''mm''
   \<and> items (getUserModules db21 ''u1'' 20 (Some ''mm'')) = [sample ''m'' ''u1'' 0]
   \<and> set (items (getUserModules db21 ''u1'' 20 (Some ''mm'')))
        \<inter> set (items (getUserModules db21 ''u1'' 20 None)) = {}"
proof -
  have h1: "distinct (map id_col db21)" by (rule db21_distinct)
  have h2: "\<forall>m \<in> set db21. id_col m \<noteq> []" using db21_ids by (simp add: list_all_iff)
  have h3: "20 < length (filter (\<lambda>t. user_id t = ''u1'') db21)" by (rule db21_count)
  from getUserModules_second_page_no_overlap [OF h1 h2 h3]
  have "set (items (getUserModules db21 ''u1'' 20 (Some ''mm'')))
        \<inter> set (items (getUserModules db21 ''u1'' 20 None)) = {}"
    by (simp add: db21_page1)
  with h1 h3 db21_ids db21_page1 db21_page2 show ?thesis by simp
qed

text \<open>
  C3. For an identifier whose counter is fresh at the first call (no live key), any limit
  and any window: among the calls made from the first call on and before the window of the
  first call ends, the call number \<open>n + 1\<close> is allowed exactly when \<open>n + 1 \<le> limit\<close> (so
  call \<open>limit + 1\<close> is refused) and leaves \<open>max 0 (limit - (n + 1))\<close> remaining. With limit 3
  and window 60 the four calls give allowed with 2, 1, 0 remaining, then refused with 0.
\<close>

theorem rateLimit_window_count:
  assumes "lookup r t1 (rateLimit_key identifier) = None"
      and "\<forall>t \<in> set later. t1 \<le> t \<and> t < t1 + window * 1000"
      and "n < length (t1 # later)"
  shows "success (rateLimit_calls r (t1 # later) identifier limit window ! n) = (int n + 1 \<le> limit)
       \<and> remaining (rateLimit_calls r (t1 # later) identifier limit window ! n)
           = max 0 (limit - (int n + 1))"
proof (cases n)
  case 0
  then show ?thesis
    using rateLimit_first [OF assms(1), of limit window]
    by (simp add: split_beta)
next
  case (Suc m)
  let ?r' = "snd (rateLimit (\<lambda>c. False) t1 r identifier limit window)"
  have m: "m < length later" using assms(3) Suc by simp
  then obtain t where "t \<in> set later" by (cases later) auto
  then have w: "0 < window" using assms(2) by fastforce
  have st: "?r' (rateLimit_key identifier) = Some \<lparr>val = 1, expireAt = Some (t1 + window * 1000)\<rparr>"
    using rateLimit_first [OF assms(1), of limit window] w by simp
  have b: "\<forall>t \<in> set later. t < t1 + window * 1000" using assms(2) by simp
  have "success (rateLimit_calls ?r' later identifier limit window ! m) = (1 + int m + 1 \<le> limit)
       \<and> remaining (rateLimit_calls ?r' later identifier limit window ! m) = max 0 (limit - (1 + int m + 1))"
    using st _ b m by (rule rateLimit_counting) simp
  then show ?thesis by (simp add: Suc split_beta add.commute add.left_commute)
qed

theorem rateLimit_window_count_witness:
  "lookup Map.empty 0 (rateLimit_key ''u1'') = None
   \<and> map (\<lambda>x. (success x, remaining x)) (rateLimit_calls Map.empty [0, 1000, 2000, 59999] ''u1'' 3 60)
       = [(True, 2), (True, 1), (True, 0), (False, 0)]
   \<and> success (rateLimit_calls Map.empty [0, 1000, 2000, 59999] ''u1'' 3 60 ! 2) = True
   \<and> remaining (rateLimit_calls Map.empty [0, 1000, 2000, 59999] ''u1'' 3 60 ! 2) = 0
   \<and> success (rateLimit_calls Map.empty [0, 1000, 2000, 59999] ''u1'' 3 60 ! 3) = False
   \<and> remaining (rateLimit_calls Map.empty [0, 1000, 2000, 59999] ''u1'' 3 60 ! 3) = 0"
proof -
  let ?rs = "rateLimit_calls Map.empty (0 # [1000, 2000, 59999]) ''u1'' 3 60"
  have h1: "lookup Map.empty 0 (rateLimit_key ''u1'') = None" by (simp add: lookup_def)
  have h2: "\<forall>t \<in> set [1000, 2000, 59999]. (0::int) \<le> t \<and> t < 0 + 60 * 1000" by simp
  have n2: "(2::nat) < length ((0::int) # [1000, 2000, 59999])" by simp
  have n3: "(3::nat) < length ((0::int) # [1000, 2000, 59999])" by simp
  have r2: "success (?rs ! 2) = (int 2 + 1 \<le> 3) \<and> remaining (?rs ! 2) = max 0 (3 - (int 2 + 1))"
    using h1 h2 n2 by (rule rateLimit_window_count)
  have r3: "success (?rs ! 3) = (int 3 + 1 \<le> 3) \<and> remaining (?rs ! 3) = max 0 (3 - (int 3 + 1))"
    using h1 h2 n3 by (rule rateLimit_window_count)
  have e2: "success (?rs ! 2) = True \<and> remaining (?rs ! 2) = 0"
    by (simp only: r2) simp
  have e3: "success (?rs ! 3) = False \<and> remaining (?rs ! 3) = 0"
    by (simp only: r3) simp
  show ?thesis
    by (intro conjI h1 scenario_u1 conjunct1 [OF e2] conjunct2 [OF e2]
        conjunct1 [OF e3] conjunct2 [OF e3])
qed

text \<open>
  C4. When a command that \<^verbatim>\<open>rateLimit\<close> sends to the store fails (\<^verbatim>\<open>INCR\<close>, \<^verbatim>\<open>TTL\<close>, or
  the \<^verbatim>\<open>EXPIRE\<close> sent for a fresh counter), the call still returns a result, and it is
  allowed, with \<open>limit\<close> remaining and a reset time one window after the current time.
\<close>

theorem rateLimit_fails_open:
  assumes "fails INCR \<or> fails TTL
           \<or> (fails EXPIRE \<and> lookup r now (rateLimit_key identifier) = None)"
  shows "fst (rateLimit fails now r identifier limit window) =
           \<lparr>success = True, remaining = limit, reset = now + window * 1000\<rparr>"
proof -
  from assms obtain error where "fst (rateLimit_try fails now r identifier limit window) = Inl error"
    using rateLimit_try_throws by blast
  then show ?thesis by (rule rateLimit_caught)
qed

theorem rateLimit_fails_open_witness:
  "fst (rateLimit (\<lambda>c. c = INCR) 1000 Map.empty ''u1'' 3 60) =
     \<lparr>success = True, remaining = 3, reset = 61000\<rparr>
   \<and> fst (rateLimit (\<lambda>c. c = EXPIRE) 1000 Map.empty ''u1'' 3 60) =
     \<lparr>success = True, remaining = 3, reset = 61000\<rparr>
   \<and> fst (rateLimit (\<lambda>c. c = TTL) 1000 Map.empty ''u1'' 3 60) =
     \<lparr>success = True, remaining = 3, reset = 61000\<rparr>"
  using rateLimit_fails_open [of "\<lambda>c. c = INCR" Map.empty 1000 "''u1''" 3 60]
    rateLimit_fails_open [of "\<lambda>c. c = EXPIRE" Map.empty 1000 "''u1''" 3 60]
    rateLimit_fails_open [of "\<lambda>c. c = TTL" Map.empty 1000 "''u1''" 3 60]
  by (simp add: lookup_def)

text \<open>
  C5. For a limit of at least 1, \<^verbatim>\<open>getUserModules\<close> returns at most \<open>limit\<close> rows, all of
  them the caller's, ordered by \<^verbatim>\<open>lastVisited\<close> descending; the items are the first
  \<open>limit\<close> rows of a fetch of at most \<open>limit + 1\<close> rows; when the cursor is the id of a
  module, that module's \<^verbatim>\<open>lastVisited\<close> is resolved and every item is strictly earlier;
  \<^verbatim>\<open>nextCursor\<close> is the id of the last item when more than \<open>limit\<close> rows match, and absent
  otherwise.
\<close>

theorem getUserModules_page:
  assumes "1 \<le> limit"
  shows "length (items (getUserModules db userId limit cursor)) \<le> limit
    \<and> (\<forall>m \<in> set (items (getUserModules db userId limit cursor)). m \<in> set db \<and> user_id m = userId)
    \<and> sorted_wrt (\<lambda>a b. lastVisited b \<le> lastVisited a) (items (getUserModules db userId limit cursor))
    \<and> items (getUserModules db userId limit cursor) =
        take limit (findMany (modulesWhere userId (resolveCursor db cursor)) (limit + 1) db)
    \<and> length (findMany (modulesWhere userId (resolveCursor db cursor)) (limit + 1) db) \<le> limit + 1
    \<and> (\<forall>c cm. cursor = Some c \<and> c \<noteq> [] \<and> findFirst (\<lambda>t. id_col t = c) db = Some cm \<longrightarrow>
          resolveCursor db cursor = Some (lastVisited cm)
          \<and> (\<forall>m \<in> set (items (getUserModules db userId limit cursor)).
                lastVisited m < lastVisited cm))
    \<and> (limit < length (filter (modulesWhere userId (resolveCursor db cursor)) db) \<longrightarrow>
          items (getUserModules db userId limit cursor) \<noteq> []
          \<and> nextCursor (getUserModules db userId limit cursor) =
              Some (id_col (last (items (getUserModules db userId limit cursor)))))
    \<and> (\<not> limit < length (filter (modulesWhere userId (resolveCursor db cursor)) db) \<longrightarrow>
          nextCursor (getUserModules db userId limit cursor) = None)"
proof -
  let ?S = "matching db userId cursor"
  let ?P = "getUserModules db userId limit cursor"
  have it: "items ?P = take limit ?S" by (rule items_getUserModules)
  have sub: "set (items ?P) \<subseteq> set ?S" unfolding it by (rule set_take_subset)
  have c1: "length (items ?P) \<le> limit" unfolding it by simp
  have c2: "\<forall>m \<in> set (items ?P). m \<in> set db \<and> user_id m = userId"
    using sub matching_owned by blast
  have c3: "sorted_wrt (\<lambda>a b. lastVisited b \<le> lastVisited a) (items ?P)"
    unfolding it using matching_sorted by (rule sorted_wrt_take)
  have c4: "items ?P = take limit (findMany (modulesWhere userId (resolveCursor db cursor)) (limit + 1) db)"
    unfolding it findMany_matching by (simp add: min_def)
  have c5: "length (findMany (modulesWhere userId (resolveCursor db cursor)) (limit + 1) db) \<le> limit + 1"
    unfolding findMany_matching by simp
  have c6: "\<forall>c cm. cursor = Some c \<and> c \<noteq> [] \<and> findFirst (\<lambda>t. id_col t = c) db = Some cm \<longrightarrow>
          resolveCursor db cursor = Some (lastVisited cm)
          \<and> (\<forall>m \<in> set (items ?P). lastVisited m < lastVisited cm)"
  proof (intro allI impI, elim conjE)
    fix c cm
    assume h: "cursor = Some c" "c \<noteq> []" "findFirst (\<lambda>t. id_col t = c) db = Some cm"
    have r: "resolveCursor db cursor = Some (lastVisited cm)"
      using h by (simp add: resolveCursor_found)
    have "\<forall>m \<in> set (items ?P). lastVisited m < lastVisited cm"
      using sub matching_bounded [OF r] by blast
    with r show "resolveCursor db cursor = Some (lastVisited cm)
          \<and> (\<forall>m \<in> set (items ?P). lastVisited m < lastVisited cm)" by simp
  qed
  have c7: "limit < length (filter (modulesWhere userId (resolveCursor db cursor)) db) \<longrightarrow>
          items ?P \<noteq> [] \<and> nextCursor ?P = Some (id_col (last (items ?P)))"
  proof
    assume "limit < length (filter (modulesWhere userId (resolveCursor db cursor)) db)"
    then have lt: "limit < length ?S" by (simp add: length_matching)
    have ne: "items ?P \<noteq> []" unfolding it using lt assms by auto
    have "last (items ?P) = items ?P ! (length (items ?P) - 1)"
      using ne by (rule last_conv_nth)
    also have "\<dots> = ?S ! (limit - 1)" unfolding it using lt assms by simp
    finally have "last (items ?P) = ?S ! (limit - 1)" .
    moreover have "nextCursor ?P = Some (id_col (?S ! (limit - 1)))"
      using lt assms by (simp add: nextCursor_getUserModules)
    ultimately show "items ?P \<noteq> [] \<and> nextCursor ?P = Some (id_col (last (items ?P)))"
      using ne by simp
  qed
  have c8: "\<not> limit < length (filter (modulesWhere userId (resolveCursor db cursor)) db) \<longrightarrow>
          nextCursor ?P = None"
    by (simp add: nextCursor_getUserModules length_matching)
  show ?thesis using c1 c2 c3 c4 c5 c6 c7 c8 by blast
qed

theorem getUserModules_page_witness:
  "(1::nat) \<le> 2
   \<and> getUserModules db4 ''u1'' 2 None =
       \<lparr>items = [sample ''a'' ''u1'' 30, sample ''b'' ''u1'' 20], nextCursor = Some ''b''\<rparr>
   \<and> findFirst (\<lambda>t. id_col t = ''b'') db4 = Some (sample ''b'' ''u1'' 20)
   \<and> getUserModules db4 ''u1'' 2 (Some ''b'') =
       \<lparr>items = [sample ''c'' ''u1'' 10], nextCursor = None\<rparr>
   \<and> 2 < length (filter (modulesWhere ''u1'' (resolveCursor db4 None)) db4)
   \<and> \<not> 2 < length (filter (modulesWhere ''u1'' (resolveCursor db4 (Some ''b''))) db4)"
proof -
  have h: "(1::nat) \<le> 2" by simp
  have ff: "findFirst (\<lambda>t. id_col t = ''b'') db4 = Some (sample ''b'' ''u1'' 20)"
    by (simp add: findFirst_def db4_def sample_def)
  have n1: "2 < length (filter (modulesWhere ''u1'' (resolveCursor db4 None)) db4)"
    by (simp add: resolveCursor_def modulesWhere_None db4_def sample_def)
  have n2: "\<not> 2 < length (filter (modulesWhere ''u1'' (resolveCursor db4 (Some ''b''))) db4)"
    by (simp add: resolveCursor_def findFirst_def modulesWhere_Some db4_def sample_def)
  from getUserModules_page [OF h, of db4 "''u1''" "Some ''b''"]
  have "nextCursor (getUserModules db4 ''u1'' 2 (Some ''b'')) = None"
    using n2 by blast
  with h ff n1 n2 db4_page1 db4_page2 show ?thesis by simp
qed

text \<open>
  C6. For an id that no module of the caller carries, \<^verbatim>\<open>getById\<close>, \<^verbatim>\<open>update\<close> and
  \<^verbatim>\<open>archive\<close> give the same result on the table as it is (where the id may belong to
  another user) and on the table without any row of that id; the table is left unchanged.
\<close>

theorem not_owned_same_as_absent:
  assumes "\<forall>m \<in> set db. id_col m = i \<longrightarrow> user_id m \<noteq> userId" and "up_id inp = i"
  shows "getById db userId i = getById (filter (\<lambda>m. id_col m \<noteq> i) db) userId i
       \<and> getById db userId i =
           Inl (TRPCError INTERNAL_SERVER_ERROR ''An error occurred while fetching the module'')
       \<and> fst (update db now userId inp) = fst (update (filter (\<lambda>m. id_col m \<noteq> i) db) now userId inp)
       \<and> update db now userId inp = (Inl (TRPCError NOT_FOUND ''Module not found''), db)
       \<and> fst (archive db userId i) = fst (archive (filter (\<lambda>m. id_col m \<noteq> i) db) userId i)
       \<and> archive db userId i = (0, db)"
proof -
  let ?db' = "filter (\<lambda>m. id_col m \<noteq> i) db"
  have n1: "findFirst (\<lambda>t. id_col t = i \<and> user_id t = userId) db = None"
    using assms(1) by (rule findFirst_not_owned)
  have n2: "findFirst (\<lambda>t. id_col t = i \<and> user_id t = userId) ?db' = None"
    by (rule findFirst_not_owned) simp
  have g: "getById db userId i =
      Inl (TRPCError INTERNAL_SERVER_ERROR ''An error occurred while fetching the module'')"
    "getById ?db' userId i =
      Inl (TRPCError INTERNAL_SERVER_ERROR ''An error occurred while fetching the module'')"
    by (simp_all add: getById_def getById_handler_def getById_try_def getById_catch_def n1 n2)
  have u: "update db now userId inp = (Inl (TRPCError NOT_FOUND ''Module not found''), db)"
    "update ?db' now userId inp = (Inl (TRPCError NOT_FOUND ''Module not found''), ?db')"
    using assms(2) by (simp_all add: update_def Let_def n1 n2)
  have a: "archive db userId i = (0, db)"
    unfolding archive_def using assms(1) by (intro update_where_none) blast
  have a': "archive ?db' userId i = (0, ?db')"
    unfolding archive_def by (intro update_where_none) simp
  show ?thesis using g u a a' by simp
qed

theorem not_owned_same_as_absent_witness:
  "findFirst (\<lambda>t. id_col t = ''z'') db4 = Some (sample ''z'' ''u2'' 25)
   \<and> filter (\<lambda>m. id_col m \<noteq> ''z'') db4 =
       [sample ''c'' ''u1'' 10, sample ''a'' ''u1'' 30, sample ''b'' ''u1'' 20]
   \<and> getById db4 ''u1'' ''z'' = getById (filter (\<lambda>m. id_col m \<noteq> ''z'') db4) ''u1'' ''z''
   \<and> update db4 9 ''u1'' (algorithms\<lparr>up_id := ''z''\<rparr>) =
       (Inl (TRPCError NOT_FOUND ''Module not found''), db4)
   \<and> archive db4 ''u1'' ''z'' = (0, db4)"
proof -
  have h1: "\<forall>m \<in> set db4. id_col m = ''z'' \<longrightarrow> user_id m \<noteq> ''u1''"
    by (simp add: db4_def sample_def)
  have h2: "up_id (algorithms\<lparr>up_id := ''z''\<rparr>) = ''z''" by simp
  have e1: "findFirst (\<lambda>t. id_col t = ''z'') db4 = Some (sample ''z'' ''u2'' 25)"
    by (simp add: findFirst_def db4_def sample_def)
  have e2: "filter (\<lambda>m. id_col m \<noteq> ''z'') db4 =
       [sample ''c'' ''u1'' 10, sample ''a'' ''u1'' 30, sample ''b'' ''u1'' 20]"
    by (simp add: db4_def sample_def)
  from not_owned_same_as_absent [OF h1 h2, of 9] e1 e2 show ?thesis by simp
qed



text \<open>
  C8. \<^verbatim>\<open>update\<close> writes the clock reading to \<^verbatim>\<open>modifiedAt\<close> without comparing it with the
  stored value, and the timestamps of creation are the store's. So \<^verbatim>\<open>modifiedAt\<close> follows
  the readings: over a sequence of \<^verbatim>\<open>update\<close> calls whose clock readings do not decrease
  and are not before the module's stored \<^verbatim>\<open>modifiedAt\<close>, for a module that starts with
  \<^verbatim>\<open>createdAt \<le> modifiedAt\<close> as \<^verbatim>\<open>create\<close> leaves it, the module's \<^verbatim>\<open>modifiedAt\<close> does not
  decrease from one state to the next and is never before its \<^verbatim>\<open>createdAt\<close>. The module
  is the row at position \<open>k\<close>; the calls may be anyone's.
\<close>

theorem update_modifiedAt_monotone:
  assumes "k < length db" and "createdAt (db ! k) \<le> modifiedAt (db ! k)"
      and "sorted (map fst calls)" and "\<forall>c \<in> set calls. modifiedAt (db ! k) \<le> fst c"
  shows "sorted (map (\<lambda>s. modifiedAt (s ! k)) (update_trace db calls))
       \<and> (\<forall>s \<in> set (update_trace db calls). createdAt (s ! k) \<le> modifiedAt (s ! k))"
  using update_trace_modifiedAt [OF assms] by blast

theorem update_modifiedAt_monotone_witness:
  "map (\<lambda>s. modifiedAt (s ! 0))
     (update_trace [sample ''a'' ''u1'' 30] [(5, ''u1'', algorithms), (7, ''u1'', algorithms)]) = [0, 5, 7]
   \<and> map (\<lambda>s. createdAt (s ! 0))
     (update_trace [sample ''a'' ''u1'' 30] [(5, ''u1'', algorithms), (7, ''u1'', algorithms)]) = [0, 0, 0]
   \<and> sorted (map (\<lambda>s. modifiedAt (s ! 0))
     (update_trace [sample ''a'' ''u1'' 30] [(5, ''u1'', algorithms), (7, ''u1'', algorithms)]))"
proof -
  let ?db = "[sample ''a'' ''u1'' 30]"
  let ?calls = "[(5::int, ''u1'', algorithms), (7, ''u1'', algorithms)]"
  have h1: "0 < length ?db" by simp
  have h2: "createdAt (?db ! 0) \<le> modifiedAt (?db ! 0)" by (simp add: sample_def)
  have h3: "sorted (map fst ?calls)" by simp
  have h4: "\<forall>c \<in> set ?calls. modifiedAt (?db ! 0) \<le> fst c" by (simp add: sample_def)
  have e1: "map (\<lambda>s. modifiedAt (s ! 0)) (update_trace ?db ?calls) = [0, 5, 7]"
    by (simp add: update_def update_where_def findFirst_def sample_def algorithms_def Let_def
        withDefault_def int4_def)
  have e2: "map (\<lambda>s. createdAt (s ! 0)) (update_trace ?db ?calls) = [0, 0, 0]"
    by (simp add: update_def update_where_def findFirst_def sample_def algorithms_def Let_def
        withDefault_def int4_def)
  from update_modifiedAt_monotone [OF h1 h2 h3 h4] e1 e2 show ?thesis by blast
qed

text \<open>
  Without the condition on the clock the statement of C8 fails. The owner updates the
  module \<open>a\<close> when the clock reads 5 and again when it reads 3: \<^verbatim>\<open>modifiedAt\<close> goes from 0
  to 5 and back to 3. And a module that the store created at its instant 100 and that the
  owner updates when the clock of the server reads 50 has \<^verbatim>\<open>modifiedAt\<close> 50, before its
  \<^verbatim>\<open>createdAt\<close> 100.
\<close>

theorem update_modifiedAt_follows_clock:
  "map (\<lambda>s. modifiedAt (s ! 0))
     (update_trace [sample ''a'' ''u1'' 30] [(5, ''u1'', algorithms), (3, ''u1'', algorithms)]) = [0, 5, 3]
   \<and> \<not> sorted (map (\<lambda>s. modifiedAt (s ! 0))
     (update_trace [sample ''a'' ''u1'' 30] [(5, ''u1'', algorithms), (3, ''u1'', algorithms)]))
   \<and> createdAt (snd (create [] 100 ''a'' ''u1'' cs201) ! 0) = 100
   \<and> modifiedAt (snd (create [] 100 ''a'' ''u1'' cs201) ! 0) = 100
   \<and> fst (update (snd (create [] 100 ''a'' ''u1'' cs201)) 50 ''u1'' algorithms) = Inr 1
   \<and> modifiedAt (snd (update (snd (create [] 100 ''a'' ''u1'' cs201)) 50 ''u1'' algorithms) ! 0) = 50
   \<and> createdAt (snd (update (snd (create [] 100 ''a'' ''u1'' cs201)) 50 ''u1'' algorithms) ! 0) = 100"
proof -
  have t: "map (\<lambda>s. modifiedAt (s ! 0))
     (update_trace [sample ''a'' ''u1'' 30] [(5, ''u1'', algorithms), (3, ''u1'', algorithms)]) = [0, 5, 3]"
    by (simp add: update_def update_where_def findFirst_def sample_def algorithms_def Let_def
        withDefault_def int4_def)
  have n: "\<not> sorted (map (\<lambda>s. modifiedAt (s ! 0))
     (update_trace [sample ''a'' ''u1'' 30] [(5, ''u1'', algorithms), (3, ''u1'', algorithms)]))"
    unfolding t by simp
  have c: "snd (create [] 100 ''a'' ''u1'' cs201) =
      [\<lparr>id_col = ''a'', user_id = ''u1'', name = ''Algorithms'', description = Some [],
        code = ''CS201'', icon = ''default'', color = ''default'', archived = False,
        credits = 4, createdAt = 100, modifiedAt = 100, lastVisited = 100\<rparr>]"
    by (simp add: create_cases cs201_def withDefault_def int4_def)
  have u: "update [\<lparr>id_col = ''a'', user_id = ''u1'', name = ''Algorithms'', description = Some [],
        code = ''CS201'', icon = ''default'', color = ''default'', archived = False,
        credits = 4, createdAt = 100, modifiedAt = 100, lastVisited = 100\<rparr>] 50 ''u1'' algorithms =
      (Inr 1, [\<lparr>id_col = ''a'', user_id = ''u1'', name = ''Algorithms II'', description = Some [],
        code = ''CS202'', icon = ''default'', color = ''red'', archived = False,
        credits = 5, createdAt = 100, modifiedAt = 50, lastVisited = 100\<rparr>])"
    by (simp add: update_def update_where_def findFirst_def algorithms_def Let_def
        withDefault_def int4_def)
  show ?thesis
    by (intro conjI t n) (simp_all add: c u)
qed

text \<open>
  C9. \<^verbatim>\<open>archive\<close> followed by \<^verbatim>\<open>recover\<close> on an id leaves the table as it was, except
  that \<^verbatim>\<open>archived\<close> is false in the caller's rows of that id. For a module the caller owns
  (the row at position \<open>k\<close>): \<^verbatim>\<open>archive\<close> changes a row and sets the flag, and after
  \<^verbatim>\<open>recover\<close> the row is the original one with \<^verbatim>\<open>archived\<close> false, the timestamps
  included.
\<close>

theorem archive_then_recover:
  "snd (recover (snd (archive db userId i)) userId i) =
     map (\<lambda>t. if id_col t = i \<and> user_id t = userId then t\<lparr>archived := False\<rparr> else t) db
   \<and> (k < length db \<and> id_col (db ! k) = i \<and> user_id (db ! k) = userId \<longrightarrow>
        fst (archive db userId i) \<noteq> 0
        \<and> archived (snd (archive db userId i) ! k) = True
        \<and> snd (recover (snd (archive db userId i)) userId i) ! k = (db ! k)\<lparr>archived := False\<rparr>)"
proof -
  have a: "snd (recover (snd (archive db userId i)) userId i) =
     map (\<lambda>t. if id_col t = i \<and> user_id t = userId then t\<lparr>archived := False\<rparr> else t) db"
    by (simp add: archive_def recover_def update_where_def)
  have b: "fst (archive db userId i) \<noteq> 0
        \<and> archived (snd (archive db userId i) ! k) = True
        \<and> snd (recover (snd (archive db userId i)) userId i) ! k = (db ! k)\<lparr>archived := False\<rparr>"
    if "k < length db" "id_col (db ! k) = i" "user_id (db ! k) = userId"
  proof -
    have "db ! k \<in> set (filter (\<lambda>t. id_col t = i \<and> user_id t = userId) db)"
      using that by simp
    then have "filter (\<lambda>t. id_col t = i \<and> user_id t = userId) db \<noteq> []"
      by (metis empty_iff empty_set)
    then have "fst (archive db userId i) \<noteq> 0"
      by (simp add: archive_def update_where_def)
    moreover have "archived (snd (archive db userId i) ! k) = True"
      using that by (simp add: archive_def update_where_def)
    moreover have "snd (recover (snd (archive db userId i)) userId i) ! k = (db ! k)\<lparr>archived := False\<rparr>"
      unfolding a using that by simp
    ultimately show ?thesis by blast
  qed
  show ?thesis using a b by blast
qed

theorem archive_then_recover_witness:
  "snd (archive db4 ''u1'' ''b'') ! 3 = (sample ''b'' ''u1'' 20)\<lparr>archived := True\<rparr>
   \<and> fst (archive db4 ''u1'' ''b'') = 1
   \<and> snd (recover (snd (archive db4 ''u1'' ''b'')) ''u1'' ''b'') = db4"
proof -
  have h: "3 < length db4 \<and> id_col (db4 ! 3) = ''b'' \<and> user_id (db4 ! 3) = ''u1''"
    by (simp add: db4_def sample_def)
  have e: "snd (archive db4 ''u1'' ''b'') ! 3 = (sample ''b'' ''u1'' 20)\<lparr>archived := True\<rparr>"
      "fst (archive db4 ''u1'' ''b'') = 1"
    by (simp_all add: archive_def update_where_def db4_def sample_def)
  have "snd (recover (snd (archive db4 ''u1'' ''b'')) ''u1'' ''b'') = db4"
    using archive_then_recover [of db4 "''u1''" "''b''" 3]
    by (simp add: db4_def sample_def)
  with e show ?thesis by simp
qed

text \<open>
  C10. The lookup of the cursor in \<^verbatim>\<open>getUserModules\<close> is by id alone. When the cursor is
  the id of a module of another user, that module's \<^verbatim>\<open>lastVisited\<close> bounds the caller's
  page; when it is the id of no module, the result is that of the call without a cursor.
  So for every caller there are two tables with the same rows of the caller on which the
  same call returns different pages.
\<close>

theorem getUserModules_cursor_not_scoped:
  "(c \<noteq> [] \<and> findFirst (\<lambda>t. id_col t = c) db = Some cm \<and> user_id cm \<noteq> userId \<longrightarrow>
      resolveCursor db (Some c) = Some (lastVisited cm)
      \<and> items (getUserModules db userId limit (Some c)) =
          take limit (sort_key (\<lambda>t. - lastVisited t)
            (filter (\<lambda>t. user_id t = userId \<and> lastVisited t < lastVisited cm) db)))
   \<and> (findFirst (\<lambda>t. id_col t = c) db = None \<longrightarrow>
        getUserModules db userId limit (Some c) = getUserModules db userId limit None)
   \<and> (\<exists>db1 db2.
        filter (\<lambda>t. user_id t = userId) db1 = filter (\<lambda>t. user_id t = userId) db2
        \<and> getUserModules db1 userId 1 (Some ''z'') \<noteq> getUserModules db2 userId 1 (Some ''z''))"
proof (intro conjI impI)
  assume h: "c \<noteq> [] \<and> findFirst (\<lambda>t. id_col t = c) db = Some cm \<and> user_id cm \<noteq> userId"
  then show r: "resolveCursor db (Some c) = Some (lastVisited cm)"
    by (simp add: resolveCursor_found)
  show "items (getUserModules db userId limit (Some c)) =
          take limit (sort_key (\<lambda>t. - lastVisited t)
            (filter (\<lambda>t. user_id t = userId \<and> lastVisited t < lastVisited cm) db))"
    by (simp add: items_getUserModules matching_def r modulesWhere_Some)
next
  assume "findFirst (\<lambda>t. id_col t = c) db = None"
  then have "resolveCursor db (Some c) = resolveCursor db None"
    by (simp add: resolveCursor_def)
  then show "getUserModules db userId limit (Some c) = getUserModules db userId limit None"
    by (simp add: getUserModules_def)
next
  let ?other = "CHR ''x'' # userId"
  let ?db1 = "[sample ''a'' userId 30, sample ''z'' ?other 25]"
  let ?db2 = "[sample ''a'' userId 30, sample ''z'' ?other 35]"
  have "filter (\<lambda>t. user_id t = userId) ?db1 = filter (\<lambda>t. user_id t = userId) ?db2"
    by (simp add: sample_def)
  moreover have "items (getUserModules ?db1 userId 1 (Some ''z'')) = []"
    by (simp add: items_getUserModules matching_def resolveCursor_def findFirst_def
        modulesWhere_Some sample_def)
  moreover have "items (getUserModules ?db2 userId 1 (Some ''z'')) = [sample ''a'' userId 30]"
    by (simp add: items_getUserModules matching_def resolveCursor_def findFirst_def
        modulesWhere_Some sample_def)
  ultimately have "filter (\<lambda>t. user_id t = userId) ?db1 = filter (\<lambda>t. user_id t = userId) ?db2
        \<and> getUserModules ?db1 userId 1 (Some ''z'') \<noteq> getUserModules ?db2 userId 1 (Some ''z'')"
    by (metis list.distinct(1))
  then show "\<exists>db1 db2.
        filter (\<lambda>t. user_id t = userId) db1 = filter (\<lambda>t. user_id t = userId) db2
        \<and> getUserModules db1 userId 1 (Some ''z'') \<noteq> getUserModules db2 userId 1 (Some ''z'')"
    by blast
qed

theorem getUserModules_cursor_not_scoped_witness:
  "findFirst (\<lambda>t. id_col t = ''z'') db4 = Some (sample ''z'' ''u2'' 25)
   \<and> items (getUserModules db4 ''u1'' 2 (Some ''z'')) = [sample ''b'' ''u1'' 20, sample ''c'' ''u1'' 10]
   \<and> items (getUserModules db4 ''u1'' 2 None) = [sample ''a'' ''u1'' 30, sample ''b'' ''u1'' 20]
   \<and> findFirst (\<lambda>t. id_col t = ''q'') db4 = None
   \<and> getUserModules db4 ''u1'' 2 (Some ''q'') = getUserModules db4 ''u1'' 2 None"
proof -
  have e1: "findFirst (\<lambda>t. id_col t = ''z'') db4 = Some (sample ''z'' ''u2'' 25)"
    by (simp add: findFirst_def db4_def sample_def)
  have e2: "findFirst (\<lambda>t. id_col t = ''q'') db4 = None"
    by (simp add: findFirst_def db4_def sample_def)
  have e3: "user_id (sample ''z'' ''u2'' 25) \<noteq> ''u1''" by (simp add: sample_def)
  have e4: "sort_key (\<lambda>t. - lastVisited t)
              (filter (\<lambda>t. user_id t = ''u1'' \<and> lastVisited t < lastVisited (sample ''z'' ''u2'' 25)) db4)
            = [sample ''b'' ''u1'' 20, sample ''c'' ''u1'' 10]"
    by (simp add: db4_def sample_def)
  have "items (getUserModules db4 ''u1'' 2 (Some ''z'')) = [sample ''b'' ''u1'' 20, sample ''c'' ''u1'' 10]"
    using getUserModules_cursor_not_scoped [of "''z''" db4 "sample ''z'' ''u2'' 25" "''u1''" 2] e1 e3 e4
    by simp
  moreover have "getUserModules db4 ''u1'' 2 (Some ''q'') = getUserModules db4 ''u1'' 2 None"
    using getUserModules_cursor_not_scoped [of "''q''" db4 "sample ''z'' ''u2'' 25" "''u1''" 2] e2
    by blast
  ultimately show ?thesis using e1 e2 by (simp add: db4_page1)
qed

end
